theory Spec2Isabelle
  imports Main
begin

section \<open>Career Mirror ETL scripts\<close>

text \<open>
  The repository is four one-shot scripts under \<^verbatim>\<open>etl/\<close> sharing a connection
  helper: two reference-data seeders, a profile seeder and the embedding sync.  Every
  script talks to things outside the process (the relational store, the embedding
  service, the vector index, standard output).  The model keeps those in one record,
  the \<open>world\<close>, and every source function becomes a function from a world to a result
  (an \<open>error\<close> or a value) and the world after it.
\<close>

subsection \<open>Errors\<close>

text \<open>
  Nothing in the source catches an exception, so any error aborts the script.  The
  first three constructors are raised by the client libraries when a call fails, the
  last three by Python itself (\<^verbatim>\<open>xs[0]\<close> on an empty list, \<^verbatim>\<open>None[0]\<close>, a failed
  tuple unpacking).
\<close>

datatype error =
    DatabaseError
  | OpenAIError
  | PineconeError
  | IndexError
  | TypeError
  | ValueError

subsection \<open>The relational store\<close>

text \<open>
  Tables are lists of rows in insertion order.  The columns are the ones the SQL of
  the scripts names: \<^verbatim>\<open>users(id, name, email)\<close>,
  \<^verbatim>\<open>user_profiles(id, user_id, headline, profile_text)\<close>
  (\<^verbatim>\<open>seed_profiles.py\<close> writes \<open>user_id\<close>, \<^verbatim>\<open>load_embeddings.py\<close> reads \<open>id\<close>),
  \<^verbatim>\<open>career_paths(title, description, avg_salary, lifestyle)\<close> and
  \<^verbatim>\<open>achievements(title, description, points)\<close>.
\<close>

record user =
  u_id :: int
  u_name :: string
  u_email :: string

record user_profile =
  p_id :: int
  p_user_id :: int
  p_headline :: string
  p_profile_text :: string

record career_path =
  c_title :: string
  c_description :: string
  c_avg_salary :: int
  c_lifestyle :: string

record achievement =
  a_title :: string
  a_description :: string
  a_points :: int

record database =
  users :: "user list"
  user_profiles :: "user_profile list"
  career_paths :: "career_path list"
  achievements :: "achievement list"

text \<open>The five SQL statements of the scripts, with their parameters.\<close>

datatype statement =
    InsertAchievement string string int
    \<comment> \<open>\<^verbatim>\<open>INSERT INTO achievements (title,description,points) VALUES (%s,%s,%s) ON CONFLICT DO NOTHING\<close>\<close>
  | InsertCareerPath string string int string
    \<comment> \<open>\<^verbatim>\<open>INSERT INTO career_paths (title, description, avg_salary, lifestyle) VALUES (%s,%s,%s,%s) ON CONFLICT DO NOTHING\<close>\<close>
  | InsertUser string string
    \<comment> \<open>\<^verbatim>\<open>INSERT INTO users (name, email) VALUES (%s,%s) RETURNING id\<close>\<close>
  | InsertUserProfile int string string
    \<comment> \<open>\<^verbatim>\<open>INSERT INTO user_profiles (user_id, headline, profile_text) VALUES (%s,%s,%s)\<close>\<close>
  | SelectProfiles
    \<comment> \<open>\<^verbatim>\<open>SELECT id, profile_text FROM user_profiles\<close>\<close>

text \<open>A row of a result set: the one column of \<open>RETURNING id\<close>, or the two of the select.\<close>

datatype result_row =
    IdRow int
  | IdTextRow int string

subsection \<open>Calls that leave the process\<close>

datatype 'v event =
    Connect                          \<comment> \<open>\<^verbatim>\<open>psycopg2.connect(DB_URL)\<close>\<close>
  | Cursor                           \<comment> \<open>\<^verbatim>\<open>conn.cursor()\<close>\<close>
  | Execute statement                \<comment> \<open>\<^verbatim>\<open>cur.execute(sql, params)\<close>\<close>
  | Fetchone                         \<comment> \<open>\<^verbatim>\<open>cur.fetchone()\<close>\<close>
  | Fetchall                         \<comment> \<open>\<^verbatim>\<open>cur.fetchall()\<close>\<close>
  | Commit                           \<comment> \<open>\<^verbatim>\<open>conn.commit()\<close>\<close>
  | CursorClose                      \<comment> \<open>\<^verbatim>\<open>cur.close()\<close>\<close>
  | ConnectionClose                  \<comment> \<open>\<^verbatim>\<open>conn.close()\<close>\<close>
  | PineconeInit                     \<comment> \<open>\<^verbatim>\<open>pinecone.init(api_key=..., environment="us-east1-gcp")\<close>\<close>
  | ListIndexes                      \<comment> \<open>\<^verbatim>\<open>pinecone.list_indexes()\<close>\<close>
  | CreateIndex string nat           \<comment> \<open>\<^verbatim>\<open>pinecone.create_index(name, dimension=d)\<close>\<close>
  | Index string                     \<comment> \<open>\<^verbatim>\<open>pinecone.Index(name)\<close>\<close>
  | EmbeddingCreate string string    \<comment> \<open>\<^verbatim>\<open>openai.Embedding.create(input=..., model=...)\<close>\<close>
  | Upsert "(string \<times> 'v) list"      \<comment> \<open>\<^verbatim>\<open>index.upsert([(key, vector), ...])\<close>\<close>
  | Print string                     \<comment> \<open>\<^verbatim>\<open>print(...)\<close>\<close>

text \<open>
  The world.  Its first group of fields is how the surroundings behave and never
  changes: \<open>fault\<close> says, from the calls made so far, whether the next call raises;
  \<open>embedding_reply\<close> is the list of embeddings the service returns for an input;
  \<open>faker_*\<close> and \<open>entropy\<close> are what the \<open>k\<close>-th draw of the random generators gives.
  The second group is state: the committed tables (\<open>store\<close>), the open transaction's
  view of them (\<open>pending\<close>), the cursor's unread rows, the identifier sequences of the
  store, the vector store's index names and vectors, the number of random draws made,
  and the \<open>trace\<close> of every call with its outcome (\<open>None\<close>: it returned).
  The type \<open>'v\<close> is the embedding vector, opaque to the scripts.
\<close>

record 'v world =
  fault :: "('v event \<times> error option) list \<Rightarrow> 'v event \<Rightarrow> error option"
  embedding_reply :: "string \<Rightarrow> 'v list"
  faker_name :: "nat \<Rightarrow> string"
  faker_email :: "nat \<Rightarrow> string"
  faker_job :: "nat \<Rightarrow> string"
  faker_text :: "nat \<Rightarrow> nat \<Rightarrow> string"
  entropy :: "nat \<Rightarrow> nat"
  store :: database
  pending :: database
  cursor :: "result_row list"
  users_id_seq :: int
  user_profiles_id_seq :: int
  indexes :: "string list"
  vectors :: "string \<rightharpoonup> 'v"
  drawn :: nat
  trace :: "('v event \<times> error option) list"

type_synonym ('a, 'v) prog = "'v world \<Rightarrow> (error + 'a) \<times> 'v world"

subsection \<open>Sequencing, exceptions and loops\<close>

definition return :: "'a \<Rightarrow> ('a, 'v) prog" where
  "return x w = (Inr x, w)"

definition raise :: "error \<Rightarrow> ('a, 'v) prog" where
  "raise e w = (Inl e, w)"

text \<open>\<open>x = m; f x\<close>: an exception in \<open>m\<close> skips the rest.\<close>

definition bind :: "('a, 'v) prog \<Rightarrow> ('a \<Rightarrow> ('b, 'v) prog) \<Rightarrow> ('b, 'v) prog" where
  "bind m f w = (case m w of (Inl e, w') \<Rightarrow> (Inl e, w') | (Inr x, w') \<Rightarrow> f x w')"

definition seq :: "(unit, 'v) prog \<Rightarrow> ('b, 'v) prog \<Rightarrow> ('b, 'v) prog" where
  "seq m n = bind m (\<lambda>_. n)"

text \<open>\<open>for x in xs: body\<close>.\<close>

fun for_each :: "'a list \<Rightarrow> ('a \<Rightarrow> (unit, 'v) prog) \<Rightarrow> (unit, 'v) prog" where
  "for_each [] body w = (Inr (), w)"
| "for_each (x # xs) body w =
     (case body x w of (Inl e, w') \<Rightarrow> (Inl e, w') | (Inr _, w') \<Rightarrow> for_each xs body w')"

text \<open>A call is written to the trace with its outcome; it raises when \<open>fault\<close> says so.\<close>

definition call :: "'v event \<Rightarrow> (unit, 'v) prog" where
  "call ev w =
     (let r = fault w (trace w) ev; w' = w\<lparr>trace := trace w @ [(ev, r)]\<rparr>
      in case r of Some e \<Rightarrow> (Inl e, w') | None \<Rightarrow> (Inr (), w'))"

definition modify :: "('v world \<Rightarrow> 'v world) \<Rightarrow> (unit, 'v) prog" where
  "modify f w = (Inr (), f w)"

subsection \<open>The client libraries\<close>

text \<open>
  What a statement that did not raise does to the open transaction and the cursor.

  Modelled from the spec: the schema is not in the repository; the spec declares
  \<open>title UNIQUE\<close> on \<open>career_paths\<close> and \<open>achievements\<close>, so \<open>ON CONFLICT DO NOTHING\<close>
  skips a row whose title the table already has.  The \<open>id\<close> columns the scripts never
  write are assigned by the store, from a sequence per table.
\<close>

fun run_statement :: "statement \<Rightarrow> 'v world \<Rightarrow> 'v world" where
  "run_statement (InsertAchievement t d p) w =
     (if t \<in> set (map a_title (achievements (pending w))) then w\<lparr>cursor := []\<rparr>
      else w\<lparr>pending := (pending w)\<lparr>achievements := achievements (pending w) @
                 [\<lparr>a_title = t, a_description = d, a_points = p\<rparr>]\<rparr>,
             cursor := []\<rparr>)"
| "run_statement (InsertCareerPath t d s l) w =
     (if t \<in> set (map c_title (career_paths (pending w))) then w\<lparr>cursor := []\<rparr>
      else w\<lparr>pending := (pending w)\<lparr>career_paths := career_paths (pending w) @
                 [\<lparr>c_title = t, c_description = d, c_avg_salary = s, c_lifestyle = l\<rparr>]\<rparr>,
             cursor := []\<rparr>)"
| "run_statement (InsertUser n e) w =
     (let i = users_id_seq w + 1
      in w\<lparr>users_id_seq := i,
           pending := (pending w)\<lparr>users := users (pending w) @
                 [\<lparr>u_id = i, u_name = n, u_email = e\<rparr>]\<rparr>,
           cursor := [IdRow i]\<rparr>)"
| "run_statement (InsertUserProfile uid h t) w =
     (let i = user_profiles_id_seq w + 1
      in w\<lparr>user_profiles_id_seq := i,
           pending := (pending w)\<lparr>user_profiles := user_profiles (pending w) @
                 [\<lparr>p_id = i, p_user_id = uid, p_headline = h, p_profile_text = t\<rparr>]\<rparr>,
           cursor := []\<rparr>)"
| "run_statement SelectProfiles w =
     w\<lparr>cursor := map (\<lambda>p. IdTextRow (p_id p) (p_profile_text p)) (user_profiles (pending w))\<rparr>"

text \<open>\<^verbatim>\<open>utils.get_conn\<close>: a new connection sees the committed tables.\<close>

definition get_conn :: "(unit, 'v) prog" where
  "get_conn = seq (call Connect) (modify (\<lambda>w. w\<lparr>pending := store w, cursor := []\<rparr>))"

definition conn_cursor :: "(unit, 'v) prog" where
  "conn_cursor = seq (call Cursor) (modify (\<lambda>w. w\<lparr>cursor := []\<rparr>))"

definition cur_execute :: "statement \<Rightarrow> (unit, 'v) prog" where
  "cur_execute s = seq (call (Execute s)) (modify (run_statement s))"

definition cur_fetchone :: "(result_row option, 'v) prog" where
  "cur_fetchone =
     seq (call Fetchone)
       (\<lambda>w. case cursor w of [] \<Rightarrow> (Inr None, w) | r # rs \<Rightarrow> (Inr (Some r), w\<lparr>cursor := rs\<rparr>))"

definition cur_fetchall :: "(result_row list, 'v) prog" where
  "cur_fetchall = seq (call Fetchall) (\<lambda>w. (Inr (cursor w), w\<lparr>cursor := []\<rparr>))"

definition conn_commit :: "(unit, 'v) prog" where
  "conn_commit = seq (call Commit) (modify (\<lambda>w. w\<lparr>store := pending w\<rparr>))"

definition cur_close :: "(unit, 'v) prog" where
  "cur_close = call CursorClose"

definition conn_close :: "(unit, 'v) prog" where
  "conn_close = call ConnectionClose"

definition print :: "string \<Rightarrow> (unit, 'v) prog" where
  "print s = call (Print s)"

text \<open>\<^verbatim>\<open>row[0]\<close> on what \<open>fetchone\<close> returned, and \<^verbatim>\<open>uid, text = row\<close>.\<close>

definition first_column :: "result_row option \<Rightarrow> (int, 'v) prog" where
  "first_column row =
     (case row of
        None \<Rightarrow> raise TypeError
      | Some (IdRow i) \<Rightarrow> return i
      | Some (IdTextRow i t) \<Rightarrow> return i)"

definition unpack2 :: "result_row \<Rightarrow> (int \<times> string, 'v) prog" where
  "unpack2 row =
     (case row of
        IdRow i \<Rightarrow> raise ValueError
      | IdTextRow i t \<Rightarrow> return (i, t))"

text \<open>The vector store.\<close>

definition pinecone_init :: "(unit, 'v) prog" where
  "pinecone_init = call PineconeInit"

definition pinecone_list_indexes :: "(string list, 'v) prog" where
  "pinecone_list_indexes = seq (call ListIndexes) (\<lambda>w. (Inr (indexes w), w))"

definition pinecone_create_index :: "string \<Rightarrow> nat \<Rightarrow> (unit, 'v) prog" where
  "pinecone_create_index name dimension =
     seq (call (CreateIndex name dimension)) (modify (\<lambda>w. w\<lparr>indexes := indexes w @ [name]\<rparr>))"

definition pinecone_Index :: "string \<Rightarrow> (unit, 'v) prog" where
  "pinecone_Index name = call (Index name)"

definition index_upsert :: "(string \<times> 'v) list \<Rightarrow> (unit, 'v) prog" where
  "index_upsert items =
     seq (call (Upsert items))
       (modify (\<lambda>w. w\<lparr>vectors := fold (\<lambda>(k, v) m. m(k \<mapsto> v)) items (vectors w)\<rparr>))"

text \<open>
  The embedding service: the value is the list under \<^verbatim>\<open>"data"\<close>, and
  \<^verbatim>\<open>["data"][0]["embedding"]\<close> is its first element.
\<close>

definition Embedding_create :: "string \<Rightarrow> string \<Rightarrow> ('v list, 'v) prog" where
  "Embedding_create input model =
     seq (call (EmbeddingCreate input model)) (\<lambda>w. (Inr (embedding_reply w input), w))"

definition first_embedding :: "'v list \<Rightarrow> ('v, 'v) prog" where
  "first_embedding data = (case data of [] \<Rightarrow> raise IndexError | x # xs \<Rightarrow> return x)"

text \<open>Faker and \<^verbatim>\<open>random\<close>: each call takes the next draw.\<close>

definition fake_name :: "(string, 'v) prog" where
  "fake_name w = (Inr (faker_name w (drawn w)), w\<lparr>drawn := Suc (drawn w)\<rparr>)"

definition fake_email :: "(string, 'v) prog" where
  "fake_email w = (Inr (faker_email w (drawn w)), w\<lparr>drawn := Suc (drawn w)\<rparr>)"

definition fake_job :: "(string, 'v) prog" where
  "fake_job w = (Inr (faker_job w (drawn w)), w\<lparr>drawn := Suc (drawn w)\<rparr>)"

definition fake_text :: "nat \<Rightarrow> (string, 'v) prog" where
  "fake_text max_nb_chars w =
     (Inr (faker_text w max_nb_chars (drawn w)), w\<lparr>drawn := Suc (drawn w)\<rparr>)"

text \<open>\<^verbatim>\<open>random.randint(a, b)\<close>: an integer \<open>N\<close> with \<open>a \<le> N \<le> b\<close>.\<close>

definition random_randint :: "int \<Rightarrow> int \<Rightarrow> (int, 'v) prog" where
  "random_randint a b w =
     (Inr (a + int (entropy w (drawn w) mod nat (b - a + 1))), w\<lparr>drawn := Suc (drawn w)\<rparr>)"

text \<open>Python's \<^verbatim>\<open>str\<close> on an integer.\<close>

fun digits :: "nat \<Rightarrow> string" where
  "digits n =
     (if n < 10 then [''0123456789'' ! n]
      else digits (n div 10) @ [''0123456789'' ! (n mod 10)])"

declare digits.simps [simp del]

definition str :: "int \<Rightarrow> string" where
  "str i = (if i < 0 then CHR ''-'' # digits (nat (- i)) else digits (nat i))"

text \<open>The check mark the success messages start with (U+2705, in UTF-8).\<close>

definition check_mark :: string where
  "check_mark = [CHR 0xE2, CHR 0x9C, CHR 0x85]"

subsection \<open>\<^verbatim>\<open>seed_achievements.py\<close>\<close>

definition achievements_list :: "(string \<times> string \<times> int) list" where
  "achievements_list =
     [(''First Steps'', ''Completed first analysis'', 50),
      (''Learner'', ''Took a course'', 100)]"

definition seed_achievements :: "(unit, 'v) prog" where
  "seed_achievements =
     seq get_conn (seq conn_cursor
     (seq (for_each achievements_list (\<lambda>(t, d, p). cur_execute (InsertAchievement t d p)))
     (seq conn_commit (seq cur_close (seq conn_close
     (print (check_mark @ '' Achievements seeded'')))))))"

subsection \<open>\<^verbatim>\<open>seed_analytics.py\<close>\<close>

definition careers_list :: "string list" where
  "careers_list =
     [''Data Scientist'', ''Frontend Developer'', ''Backend Engineer'',
      ''UX Designer'', ''AI Researcher'']"

text \<open>\<^verbatim>\<open>json.dumps({"stress":"medium","travel":"occasional"})\<close>.\<close>

definition lifestyle_json :: string where
  "lifestyle_json =
     ''{'' @ [CHR 0x22] @ ''stress'' @ [CHR 0x22] @ '': '' @ [CHR 0x22] @ ''medium'' @ [CHR 0x22] @
     '', '' @ [CHR 0x22] @ ''travel'' @ [CHR 0x22] @ '': '' @ [CHR 0x22] @ ''occasional'' @ [CHR 0x22] @ ''}''"

definition seed_careers :: "(unit, 'v) prog" where
  "seed_careers =
     seq get_conn (seq conn_cursor
     (seq (for_each careers_list (\<lambda>c.
             bind (random_randint 60000 180000) (\<lambda>salary.
             cur_execute (InsertCareerPath c (''A career as '' @ c) salary lifestyle_json))))
     (seq conn_commit (seq cur_close (seq conn_close
     (print (check_mark @ '' Careers seeded'')))))))"

subsection \<open>\<^verbatim>\<open>seed_profiles.py\<close>\<close>

definition seed_users :: "(unit, 'v) prog" where
  "seed_users =
     seq get_conn (seq conn_cursor
     (seq (for_each [0..<20] (\<lambda>_.
             bind fake_name (\<lambda>name.
             bind fake_email (\<lambda>email.
             bind fake_job (\<lambda>headline.
             bind (fake_text 500) (\<lambda>profile_text.
             seq (cur_execute (InsertUser name email))
             (bind cur_fetchone (\<lambda>row.
             bind (first_column row) (\<lambda>user_id.
             cur_execute (InsertUserProfile user_id headline profile_text))))))))))
     (seq conn_commit (seq cur_close (seq conn_close
     (print (check_mark @ '' Users seeded'')))))))"

subsection \<open>\<^verbatim>\<open>load_embeddings.py\<close>\<close>

definition index_name :: string where
  "index_name = ''career-mirror''"

text \<open>The module-level statements, run when the script starts.\<close>

definition ensure_index :: "(unit, 'v) prog" where
  "ensure_index =
     seq pinecone_init
     (bind pinecone_list_indexes (\<lambda>names.
      seq (if index_name \<notin> set names then pinecone_create_index index_name 1536 else return ())
      (pinecone_Index index_name)))"

definition seed_embeddings :: "(unit, 'v) prog" where
  "seed_embeddings =
     seq get_conn (seq conn_cursor
     (seq (cur_execute SelectProfiles)
     (bind cur_fetchall (\<lambda>profiles.
     seq (for_each profiles (\<lambda>row.
            bind (unpack2 row) (\<lambda>(uid, text).
            bind (Embedding_create text ''text-embedding-ada-002'') (\<lambda>data.
            bind (first_embedding data) (\<lambda>emb.
            index_upsert [(str uid, emb)])))))
     (seq (print (check_mark @ '' Embeddings synced''))
     (seq cur_close conn_close))))))"

text \<open>The script: the module level, then \<^verbatim>\<open>seed_embeddings()\<close> under the main guard.\<close>

definition load_embeddings :: "(unit, 'v) prog" where
  "load_embeddings = seq ensure_index seed_embeddings"

section \<open>Reading the trace\<close>

text \<open>
  What a run did is read off the trace.  \<open>issued w w'\<close> is the part of the trace a run
  from \<open>w\<close> to \<open>w'\<close> wrote; the other functions pick one kind of call out of a trace.
\<close>

definition issued :: "'v world \<Rightarrow> 'v world \<Rightarrow> ('v event \<times> error option) list" where
  "issued w w' = drop (length (trace w)) (trace w')"

fun embedding_input :: "'v event \<times> error option \<Rightarrow> string list" where
  "embedding_input (EmbeddingCreate input model, r) = [input]"
| "embedding_input _ = []"

definition embedding_calls :: "('v event \<times> error option) list \<Rightarrow> string list" where
  "embedding_calls tr = concat (map embedding_input tr)"

fun upsert_items :: "'v event \<times> error option \<Rightarrow> (string \<times> 'v) list list" where
  "upsert_items (Upsert items, r) = [items]"
| "upsert_items _ = []"

definition upsert_calls :: "('v event \<times> error option) list \<Rightarrow> (string \<times> 'v) list list" where
  "upsert_calls tr = concat (map upsert_items tr)"

definition upsert_keys :: "('v event \<times> error option) list \<Rightarrow> string list" where
  "upsert_keys tr = map fst (concat (upsert_calls tr))"

fun created_index :: "'v event \<times> error option \<Rightarrow> (string \<times> nat) list" where
  "created_index (CreateIndex name dimension, r) = [(name, dimension)]"
| "created_index _ = []"

definition create_index_calls :: "('v event \<times> error option) list \<Rightarrow> (string \<times> nat) list" where
  "create_index_calls tr = concat (map created_index tr)"

fun executed :: "'v event \<times> error option \<Rightarrow> statement list" where
  "executed (Execute s, r) = [s]"
| "executed _ = []"

definition statements :: "('v event \<times> error option) list \<Rightarrow> statement list" where
  "statements tr = concat (map executed tr)"

fun committed :: "'v event \<times> error option \<Rightarrow> error option list" where
  "committed (Commit, r) = [r]"
| "committed _ = []"

definition commit_calls :: "('v event \<times> error option) list \<Rightarrow> error option list" where
  "commit_calls tr = concat (map committed tr)"

text \<open>The calls that raised.\<close>

definition failed_calls :: "('v event \<times> error option) list \<Rightarrow> ('v event \<times> error option) list" where
  "failed_calls tr = filter (\<lambda>x. snd x \<noteq> None) tr"

section \<open>Names for parts of the scripts\<close>

text \<open>
  The body of the sync loop, the row the select returns for a profile, and the world
  in which the loop starts when the four calls before it returned.
\<close>

abbreviation embed_row :: "result_row \<Rightarrow> (unit, 'v) prog" where
  "embed_row \<equiv> (\<lambda>row.
            bind (unpack2 row) (\<lambda>(uid, text).
            bind (Embedding_create text ''text-embedding-ada-002'') (\<lambda>data.
            bind (first_embedding data) (\<lambda>emb.
            index_upsert [(str uid, emb)]))))"

abbreviation selected :: "user_profile \<Rightarrow> result_row" where
  "selected \<equiv> (\<lambda>p. IdTextRow (p_id p) (p_profile_text p))"

abbreviation fetched :: "'v world \<Rightarrow> 'v world" where
  "fetched w \<equiv>
     w\<lparr>pending := store w,
       trace := trace w @ [(Connect, None), (Cursor, None), (Execute SelectProfiles, None), (Fetchall, None)],
       cursor := []\<rparr>"

text \<open>
  The loop bodies of the three seeders, the frame they share (connect, cursor, loop,
  commit, close, close, print), and the world in which the loop starts when connect
  and cursor returned.
\<close>

abbreviation insert_achievement :: "string \<times> string \<times> int \<Rightarrow> (unit, 'v) prog" where
  "insert_achievement \<equiv> (\<lambda>(t, d, p). cur_execute (InsertAchievement t d p))"

abbreviation insert_career :: "string \<Rightarrow> (unit, 'v) prog" where
  "insert_career \<equiv> (\<lambda>c.
             bind (random_randint 60000 180000) (\<lambda>salary.
             cur_execute (InsertCareerPath c (''A career as '' @ c) salary lifestyle_json)))"

abbreviation insert_user_and_profile :: "nat \<Rightarrow> (unit, 'v) prog" where
  "insert_user_and_profile \<equiv> (\<lambda>_.
             bind fake_name (\<lambda>name.
             bind fake_email (\<lambda>email.
             bind fake_job (\<lambda>headline.
             bind (fake_text 500) (\<lambda>profile_text.
             seq (cur_execute (InsertUser name email))
             (bind cur_fetchone (\<lambda>row.
             bind (first_column row) (\<lambda>user_id.
             cur_execute (InsertUserProfile user_id headline profile_text)))))))))"

abbreviation batch :: "(unit, 'v) prog \<Rightarrow> string \<Rightarrow> (unit, 'v) prog" where
  "batch loop msg \<equiv>
     seq get_conn (seq conn_cursor
     (seq loop
     (seq conn_commit (seq cur_close (seq conn_close
     (print msg))))))"

abbreviation connected :: "'v world \<Rightarrow> 'v world" where
  "connected w \<equiv>
     w\<lparr>pending := store w, trace := trace w @ [(Connect, None), (Cursor, None)], cursor := []\<rparr>"

text \<open>The insert the career-path seeder executes for a title and a salary.\<close>

abbreviation career_insert :: "string \<Rightarrow> int \<Rightarrow> statement" where
  "career_insert \<equiv> (\<lambda>c salary. InsertCareerPath c (''A career as '' @ c) salary lifestyle_json)"

section \<open>Stated properties\<close>

text \<open>
  \<open>uncommitted\<close> is what every loop of a seeder guarantees: the committed tables are
  untouched, no commit is called, and a call that raised ends the loop with its error.
  \<open>commits_once_at_end\<close> is the transaction discipline of a seeder with success
  message \<open>msg\<close>: at most one commit; the committed tables change only if the commit
  call returned; a run that returns ends with commit, cursor close, connection close
  and the message, with every statement before the commit; and a statement that raised
  is the last thing the run did, with no commit called and the tables as they were.
\<close>

definition uncommitted :: "'v world \<Rightarrow> error + unit \<Rightarrow> 'v world \<Rightarrow> bool" where
  "uncommitted u r u' \<longleftrightarrow>
     store u' = store u \<and>
     (\<exists>X. trace u' = trace u @ X \<and> commit_calls X = [] \<and>
        (\<forall>ev e. (ev, Some e) \<in> set X \<longrightarrow> r = Inl e \<and> last X = (ev, Some e)))"

definition commits_once_at_end :: "(unit, 'v) prog \<Rightarrow> string \<Rightarrow> bool" where
  "commits_once_at_end seeder msg \<longleftrightarrow>
     (\<forall>w r w'. seeder w = (r, w') \<longrightarrow>
        length (commit_calls (issued w w')) \<le> 1 \<and>
        ((Commit, None) \<notin> set (issued w w') \<longrightarrow> store w' = store w) \<and>
        (r = Inr () \<longrightarrow>
           (\<exists>A. issued w w' =
                  A @ [(Commit, None), (CursorClose, None), (ConnectionClose, None), (Print msg, None)] \<and>
                commit_calls A = [] \<and> statements A = statements (issued w w'))) \<and>
        (\<forall>s e. (Execute s, Some e) \<in> set (issued w w') \<longrightarrow>
           r = Inl e \<and> last (issued w w') = (Execute s, Some e) \<and>
           commit_calls (issued w w') = [] \<and> store w' = store w))"

section \<open>Example worlds\<close>

definition empty_database :: database where
  "empty_database = \<lparr>users = [], user_profiles = [], career_paths = [], achievements = []\<rparr>"

text \<open>Nothing fails, every table is empty, and the vector store has no index.\<close>

definition quiet_world :: "nat list world" where
  "quiet_world =
     \<lparr>fault = (\<lambda>h ev. None),
      embedding_reply = (\<lambda>s. [[length s]]),
      faker_name = (\<lambda>k. ''name'' @ digits k),
      faker_email = (\<lambda>k. ''mail'' @ digits k),
      faker_job = (\<lambda>k. ''job'' @ digits k),
      faker_text = (\<lambda>cap k. replicate (min cap k) CHR ''a''),
      entropy = (\<lambda>k. 7919 * k),
      store = empty_database, pending = empty_database, cursor = [],
      users_id_seq = 0, user_profiles_id_seq = 0,
      indexes = [], vectors = Map.empty, drawn = 0, trace = []\<rparr>"

definition three_profiles :: "nat list world" where
  "three_profiles =
     quiet_world\<lparr>store := empty_database\<lparr>user_profiles :=
       [\<lparr>p_id = 1, p_user_id = 4, p_headline = ''Baker'', p_profile_text = ''bread''\<rparr>,
        \<lparr>p_id = 2, p_user_id = 5, p_headline = ''Pilot'', p_profile_text = ''sky''\<rparr>,
        \<lparr>p_id = 3, p_user_id = 6, p_headline = ''Nurse'', p_profile_text = ''care''\<rparr>]\<rparr>\<rparr>"

text \<open>The second call to the embedding service raises.\<close>

definition second_embedding_fails :: "nat list world" where
  "second_embedding_fails =
     three_profiles\<lparr>fault := (\<lambda>h ev.
        if length (embedding_calls h) = 1
        then (case ev of EmbeddingCreate input model \<Rightarrow> Some OpenAIError | _ \<Rightarrow> None)
        else None)\<rparr>"

text \<open>The vector store already has the index.\<close>

definition index_exists :: "nat list world" where
  "index_exists = quiet_world\<lparr>indexes := [''other'', ''career-mirror'']\<rparr>"

text \<open>
  A store in which a profile's own \<open>id\<close> is not its user's: the first user has no
  profile, so the second user's profile is the first row of \<open>user_profiles\<close>.
\<close>

definition shifted_ids :: "nat list world" where
  "shifted_ids =
     quiet_world\<lparr>store := empty_database
       \<lparr>users := [\<lparr>u_id = 1, u_name = ''Ada'', u_email = ''ada@example.org''\<rparr>,
                  \<lparr>u_id = 2, u_name = ''Bob'', u_email = ''bob@example.org''\<rparr>],
        user_profiles := [\<lparr>p_id = 1, p_user_id = 2, p_headline = ''Pilot'', p_profile_text = ''sky''\<rparr>]\<rparr>\<rparr>"

text \<open>The second statement a script executes raises.\<close>

definition second_insert_fails :: "nat list world" where
  "second_insert_fails =
     quiet_world\<lparr>fault := (\<lambda>h ev.
        if length (statements h) = 1
        then (case ev of Execute s \<Rightarrow> Some DatabaseError | _ \<Rightarrow> None)
        else None)\<rparr>"

section \<open>Proof tools\<close>

lemma embedding_calls_simps [simp]:
  "embedding_calls [] = []"
  "embedding_calls (x # xs) = embedding_input x @ embedding_calls xs"
  "embedding_calls (xs @ ys) = embedding_calls xs @ embedding_calls ys"
  by (simp_all add: embedding_calls_def)

lemma upsert_calls_simps [simp]:
  "upsert_calls [] = []"
  "upsert_calls (x # xs) = upsert_items x @ upsert_calls xs"
  "upsert_calls (xs @ ys) = upsert_calls xs @ upsert_calls ys"
  by (simp_all add: upsert_calls_def)

lemma upsert_keys_simps [simp]:
  "upsert_keys [] = []"
  "upsert_keys (x # xs) = map fst (concat (upsert_items x)) @ upsert_keys xs"
  "upsert_keys (xs @ ys) = upsert_keys xs @ upsert_keys ys"
  by (simp_all add: upsert_keys_def)

lemma create_index_calls_simps [simp]:
  "create_index_calls [] = []"
  "create_index_calls (x # xs) = created_index x @ create_index_calls xs"
  "create_index_calls (xs @ ys) = create_index_calls xs @ create_index_calls ys"
  by (simp_all add: create_index_calls_def)

lemma statements_simps [simp]:
  "statements [] = []"
  "statements (x # xs) = executed x @ statements xs"
  "statements (xs @ ys) = statements xs @ statements ys"
  by (simp_all add: statements_def)

lemma commit_calls_simps [simp]:
  "commit_calls [] = []"
  "commit_calls (x # xs) = committed x @ commit_calls xs"
  "commit_calls (xs @ ys) = commit_calls xs @ commit_calls ys"
  by (simp_all add: commit_calls_def)

lemma failed_calls_simps [simp]:
  "failed_calls [] = []"
  "failed_calls (x # xs) = (if snd x \<noteq> None then [x] else []) @ failed_calls xs"
  "failed_calls (xs @ ys) = failed_calls xs @ failed_calls ys"
  by (simp_all add: failed_calls_def)

lemma issued_append [simp]: "trace w' = trace w @ X \<Longrightarrow> issued w w' = X"
  by (simp add: issued_def)

lemma call_eq:
  "call ev w = (case fault w (trace w) ev of Some e \<Rightarrow> Inl e | None \<Rightarrow> Inr (),
                w\<lparr>trace := trace w @ [(ev, fault w (trace w) ev)]\<rparr>)"
  by (simp add: call_def Let_def split: option.splits)

lemma seq_apply:
  "seq m n w = (case m w of (Inl e, w') \<Rightarrow> (Inl e, w') | (Inr x, w') \<Rightarrow> n w')"
  by (simp add: seq_def bind_def)

text \<open>
  The library, each function applied to a world: rewriting with these runs a script
  from its first statement and leaves a loop body alone until the loop is entered.
\<close>

lemmas lib_defs =
  seq_apply bind_def return_def raise_def modify_def call_eq
  get_conn_def [THEN fun_cong] conn_cursor_def [THEN fun_cong]
  cur_execute_def [THEN fun_cong] cur_fetchone_def [THEN fun_cong]
  cur_fetchall_def [THEN fun_cong] conn_commit_def [THEN fun_cong]
  cur_close_def [THEN fun_cong] conn_close_def [THEN fun_cong] print_def [THEN fun_cong]
  pinecone_init_def [THEN fun_cong] pinecone_list_indexes_def [THEN fun_cong]
  pinecone_create_index_def [THEN fun_cong] pinecone_Index_def [THEN fun_cong]
  index_upsert_def [THEN fun_cong] Embedding_create_def [THEN fun_cong]
  first_embedding_def [THEN fun_cong] first_column_def [THEN fun_cong]
  unpack2_def [THEN fun_cong]
  fake_name_def fake_email_def fake_job_def fake_text_def random_randint_def

lemmas world_defs = quiet_world_def empty_database_def

lemma str_1: "str 1 = ''1''"
  by (simp add: str_def digits.simps)

lemma str_2: "str 2 = ''2''"
  by (simp add: str_def digits.simps)

text \<open>
  A guarantee \<open>G\<close> between the world before, the result and the world after that every
  pass of a loop body gives, and that composes, is given by the loop.
\<close>

lemma for_each_rule:
  assumes run: "for_each xs body w = (r, w')"
    and step: "\<And>x u r u'. x \<in> set xs \<Longrightarrow> body x u = (r, u') \<Longrightarrow> G u r u'"
    and refl: "\<And>u. G u (Inr ()) u"
    and trans: "\<And>a b c r. G a (Inr ()) b \<Longrightarrow> G b r c \<Longrightarrow> G a r c"
  shows "G w r w'"
  using run step
proof (induction xs arbitrary: w)
  case Nil
  then show ?case using refl by auto
next
  case (Cons x xs)
  obtain r1 w1 where b: "body x w = (r1, w1)" by (cases "body x w")
  have s: "G w r1 w1" using Cons.prems(2) [of x w r1 w1] b by simp
  show ?case
  proof (cases r1)
    case (Inl e)
    with Cons.prems(1) b have "w' = w1" "r = Inl e" by simp_all
    with s Inl show ?thesis by simp
  next
    case (Inr u)
    with Cons.prems(1) b have "for_each xs body w1 = (r, w')" by simp
    then have "G w1 r w'" using Cons.IH [of w1] Cons.prems(2) by auto
    with s Inr show ?thesis using trans by auto
  qed
qed

section \<open>The embedding sync\<close>

lemma embed_row_extends:
  "embed_row row w = (r, w') \<Longrightarrow> \<exists>X. trace w' = trace w @ X"
  by (auto simp: lib_defs split: option.splits list.splits result_row.splits)

lemma embed_loop_extends:
  assumes "for_each rows embed_row w = (r, w')"
  shows "\<exists>X. trace w' = trace w @ X"
  by (rule for_each_rule [OF assms, where G = "\<lambda>u r u'. \<exists>X. trace u' = trace u @ X"])
     (auto dest: embed_row_extends)

lemma embed_loop_returned:
  "for_each (map selected ps) embed_row w = (Inr (), w') \<Longrightarrow>
     embedding_calls (trace w') = embedding_calls (trace w) @ map p_profile_text ps \<and>
     upsert_keys (trace w') = upsert_keys (trace w) @ map (str \<circ> p_id) ps \<and>
     length (upsert_calls (trace w')) = length (upsert_calls (trace w)) + length ps"
proof (induction ps arbitrary: w)
  case Nil
  then show ?case by simp
next
  case (Cons p ps)
  then show ?case
    by (auto simp: lib_defs split: option.splits list.splits sum.splits prod.splits)
qed

lemma seed_embeddings_returned:
  assumes "seed_embeddings w = (Inr (), w')"
  obtains w3 w4 where
    "for_each (map selected (user_profiles (store w))) embed_row w3 = (Inr (), w4)"
    "trace w3 = trace w @ [(Connect, None), (Cursor, None), (Execute SelectProfiles, None), (Fetchall, None)]"
    "trace w' = trace w4 @ [(Print (check_mark @ '' Embeddings synced''), None), (CursorClose, None), (ConnectionClose, None)]"
  using assms
  by (auto simp: seed_embeddings_def [THEN fun_cong] lib_defs split: option.splits sum.splits prod.splits)

text \<open>
  C2.  A run of the embedding sync that returns issued one embedding-service call and
  one upsert call per row of \<open>user_profiles\<close> the query read: both counts equal the
  number of rows in the table when the run started.
\<close>

theorem sync_counts:
  assumes "seed_embeddings w = (Inr (), w')"
  shows "length (embedding_calls (issued w w')) = length (user_profiles (store w)) \<and>
         length (upsert_calls (issued w w')) = length (user_profiles (store w))"
proof -
  from assms obtain w3 w4 where
    loop: "for_each (map selected (user_profiles (store w))) embed_row w3 = (Inr (), w4)"
    and t3: "trace w3 = trace w @ [(Connect, None), (Cursor, None), (Execute SelectProfiles, None), (Fetchall, None)]"
    and t4: "trace w' = trace w4 @ [(Print (check_mark @ '' Embeddings synced''), None), (CursorClose, None), (ConnectionClose, None)]"
    by (rule seed_embeddings_returned)
  from embed_loop_extends [OF loop] obtain X where X: "trace w4 = trace w3 @ X" by blast
  from embed_loop_returned [OF loop] X
  have "embedding_calls X = map p_profile_text (user_profiles (store w))"
    and "length (upsert_calls X) = length (user_profiles (store w))"
    by simp_all
  then show ?thesis
    using X t3 t4 by (simp add: issued_def)
qed

text \<open>Three stored profiles: exactly three embedding calls and three upserts.\<close>

theorem sync_counts_witness:
  "length (embedding_calls (issued three_profiles (snd (seed_embeddings three_profiles)))) = 3 \<and>
   length (upsert_calls (issued three_profiles (snd (seed_embeddings three_profiles)))) = 3"
proof -
  have "fst (seed_embeddings three_profiles) = Inr ()"
    by (simp add: three_profiles_def world_defs seed_embeddings_def [THEN fun_cong] lib_defs)
  then have "seed_embeddings three_profiles = (Inr (), snd (seed_embeddings three_profiles))"
    by (simp add: prod_eq_iff)
  from sync_counts [OF this] show ?thesis
    by (simp add: three_profiles_def world_defs)
qed

lemma embed_row_cases:
  assumes "embed_row (selected p) w = (r, w')"
  obtains
    (embedding_failed) e where
      "r = Inl e"
      "trace w' = trace w @ [(EmbeddingCreate (p_profile_text p) ''text-embedding-ada-002'', Some e)]"
  | (no_embedding)
      "r = Inl IndexError"
      "trace w' = trace w @ [(EmbeddingCreate (p_profile_text p) ''text-embedding-ada-002'', None)]"
  | (upsert_failed) v e where
      "r = Inl e"
      "trace w' = trace w @ [(EmbeddingCreate (p_profile_text p) ''text-embedding-ada-002'', None),
                             (Upsert [(str (p_id p), v)], Some e)]"
  | (upserted) v where
      "r = Inr ()"
      "trace w' = trace w @ [(EmbeddingCreate (p_profile_text p) ''text-embedding-ada-002'', None),
                             (Upsert [(str (p_id p), v)], None)]"
  using assms
  by (auto simp: lib_defs split: option.splits list.splits)

lemma embed_loop_failed:
  assumes "for_each (map selected ps) embed_row w = (r, w')"
    and "trace w' = trace w @ X"
    and "(EmbeddingCreate text model, Some e) \<in> set X"
  shows "r = Inl e \<and>
         last X = (EmbeddingCreate text model, Some e) \<and>
         failed_calls X = [(EmbeddingCreate text model, Some e)] \<and>
         length (upsert_calls X) < length ps \<and>
         text = p_profile_text (ps ! length (upsert_calls X)) \<and>
         upsert_keys X = map (str \<circ> p_id) (take (length (upsert_calls X)) ps) \<and>
         embedding_calls X = map p_profile_text (take (Suc (length (upsert_calls X))) ps)"
  using assms
proof (induction ps arbitrary: w X)
  case Nil
  then show ?case by simp
next
  case (Cons p ps)
  obtain r1 w1 where b: "embed_row (selected p) w = (r1, w1)"
    by (cases "embed_row (selected p) w")
  from b show ?case
  proof (cases rule: embed_row_cases)
    case (embedding_failed e1)
    with Cons.prems b have "w' = w1" "r = Inl e1" by simp_all
    with Cons.prems embedding_failed show ?thesis by auto
  next
    case no_embedding
    with Cons.prems b have "w' = w1" by simp
    with Cons.prems no_embedding show ?thesis by auto
  next
    case (upsert_failed v e2)
    with Cons.prems b have "w' = w1" by simp
    with Cons.prems upsert_failed show ?thesis by auto
  next
    case (upserted v)
    with Cons.prems b have rest: "for_each (map selected ps) embed_row w1 = (r, w')" by simp
    from embed_loop_extends [OF rest] obtain Y where Y: "trace w' = trace w1 @ Y" by blast
    with upserted Cons.prems(2) have X: "X = [(EmbeddingCreate (p_profile_text p) ''text-embedding-ada-002'', None),
                             (Upsert [(str (p_id p), v)], None)] @ Y" by simp
    with Cons.prems(3) have "(EmbeddingCreate text model, Some e) \<in> set Y" by auto
    from Cons.IH [OF rest Y this] X show ?thesis by (auto simp: last_append)
  qed
qed


lemma embed_loop_frame:
  assumes "for_each rows embed_row w = (r, w')"
  shows "store w' = store w \<and> create_index_calls (issued w w') = []"
proof -
  have "\<exists>X. trace w' = trace w @ X \<and> create_index_calls X = [] \<and> store w' = store w"
    by (rule for_each_rule [OF assms, where
          G = "\<lambda>u r u'. \<exists>X. trace u' = trace u @ X \<and> create_index_calls X = [] \<and> store u' = store u"])
       (auto simp: lib_defs split: option.splits list.splits result_row.splits)
  then show ?thesis by auto
qed



lemma seed_embeddings_shape:
  assumes "seed_embeddings w = (r, w')"
  shows "(store w' = store w \<and>
          (\<exists>X. trace w' = trace w @ X \<and> fst ` set X \<subseteq> {Connect, Cursor, Execute SelectProfiles, Fetchall})) \<or>
         (\<exists>e. r = Inl e \<and>
            for_each (map selected (user_profiles (store w))) embed_row (fetched w) = (Inl e, w')) \<or>
         (\<exists>w4 Y. for_each (map selected (user_profiles (store w))) embed_row (fetched w) = (Inr (), w4) \<and>
            trace w' = trace w4 @ Y \<and> store w' = store w4 \<and>
            fst ` set Y \<subseteq> {Print (check_mark @ '' Embeddings synced''), CursorClose, ConnectionClose})"
  using assms
  by (auto simp: seed_embeddings_def [THEN fun_cong] lib_defs
           split: option.splits sum.splits prod.splits)


text \<open>
  C5.  If a call to the embedding service raises during a run of the sync, the run
  ends with that error and that call is the last thing it did and the only call that
  raised.  With \<open>k\<close> the number of upserts issued, the failing call is the one for row
  \<open>k\<close> of the table: rows \<open>0..k-1\<close> were embedded and upserted, row \<open>k\<close> was sent to the
  embedding service once, and no later row was touched.  The committed tables are as
  they were: nothing records how far the run came.
\<close>

theorem sync_aborts_at_failed_embedding:
  assumes run: "seed_embeddings w = (r, w')"
    and failed: "(EmbeddingCreate text model, Some e) \<in> set (issued w w')"
  shows "r = Inl e \<and>
         last (issued w w') = (EmbeddingCreate text model, Some e) \<and>
         failed_calls (issued w w') = [(EmbeddingCreate text model, Some e)] \<and>
         (let ps = user_profiles (store w); k = length (upsert_calls (issued w w'))
          in k < length ps \<and> text = p_profile_text (ps ! k) \<and>
             upsert_keys (issued w w') = map (str \<circ> p_id) (take k ps) \<and>
             embedding_calls (issued w w') = map p_profile_text (take (Suc k) ps)) \<and>
         store w' = store w"
proof -
  let ?ps = "user_profiles (store w)"
  let ?pre = "[(Connect, None), (Cursor, None), (Execute SelectProfiles, None), (Fetchall, None)]
                :: ('a event \<times> error option) list"
  from seed_embeddings_shape [OF run] consider
    (before) X where "trace w' = trace w @ X"
      "fst ` set X \<subseteq> {Connect, Cursor, Execute SelectProfiles, Fetchall}"
  | (looping) e1 where "r = Inl e1"
      "for_each (map selected ?ps) embed_row (fetched w) = (Inl e1, w')"
  | (after) w4 Y where
      "for_each (map selected ?ps) embed_row (fetched w) = (Inr (), w4)"
      "trace w' = trace w4 @ Y"
      "fst ` set Y \<subseteq> {Print (check_mark @ '' Embeddings synced''), CursorClose, ConnectionClose}"
    by blast
  then show ?thesis
  proof cases
    case before
    with failed show ?thesis by (auto simp: image_subset_iff)
  next
    case looping
    from embed_loop_extends [OF looping(2)] obtain X where X: "trace w' = trace (fetched w) @ X"
      by blast
    then have iss: "issued w w' = ?pre @ X" by simp
    with failed have "(EmbeddingCreate text model, Some e) \<in> set X" by auto
    from embed_loop_failed [OF looping(2) X this] embed_loop_frame [OF looping(2)] iss looping(1)
    show ?thesis by (auto simp: Let_def last_append)
  next
    case after
    from embed_loop_extends [OF after(1)] obtain X where X: "trace w4 = trace (fetched w) @ X"
      by blast
    with after(2) have iss: "issued w w' = ?pre @ X @ Y" by simp
    with failed after(3) have "(EmbeddingCreate text model, Some e) \<in> set X"
      by (auto simp: image_subset_iff)
    from embed_loop_failed [OF after(1) X this] show ?thesis by simp
  qed
qed

text \<open>
  C9.  With no rows in \<open>user_profiles\<close> the sync issues no embedding call and no
  upsert.  Unless one of its calls raised, it returns normally, and what it did is:
  connect, open a cursor, run the select, fetch, print the success message, close the
  cursor, close the connection.
\<close>

theorem sync_empty_table:
  assumes "user_profiles (store w) = []" and "seed_embeddings w = (r, w')"
  shows "embedding_calls (issued w w') = [] \<and> upsert_calls (issued w w') = [] \<and>
         (failed_calls (issued w w') = [] \<longrightarrow>
            r = Inr () \<and>
            issued w w' =
              [(Connect, None), (Cursor, None), (Execute SelectProfiles, None), (Fetchall, None),
               (Print (check_mark @ '' Embeddings synced''), None),
               (CursorClose, None), (ConnectionClose, None)])"
  using assms
  by (auto simp: seed_embeddings_def [THEN fun_cong] lib_defs issued_def
           split: option.splits sum.splits prod.splits)

lemma seed_embeddings_no_create:
  assumes "seed_embeddings w = (r, w')"
  shows "\<exists>X. trace w' = trace w @ X \<and> create_index_calls X = []"
proof -
  have 1: "create_index_calls X = []"
    if "fst ` set X \<subseteq> {Connect, Cursor, Execute SelectProfiles, Fetchall}"
    for X :: "('a event \<times> error option) list"
    using that by (induction X) auto
  have 2: "create_index_calls X = []"
    if "fst ` set X \<subseteq> {Print (check_mark @ '' Embeddings synced''), CursorClose, ConnectionClose}"
    for X :: "('a event \<times> error option) list"
    using that by (induction X) auto
  from seed_embeddings_shape [OF assms] show ?thesis
  proof (elim disjE exE conjE)
    fix X assume "trace w' = trace w @ X"
      "fst ` set X \<subseteq> {Connect, Cursor, Execute SelectProfiles, Fetchall}"
    then show ?thesis using 1 by blast
  next
    fix e assume l: "for_each (map selected (user_profiles (store w))) embed_row (fetched w) = (Inl e, w')"
    from embed_loop_extends [OF l] embed_loop_frame [OF l] show ?thesis by auto
  next
    fix w4 Y assume l: "for_each (map selected (user_profiles (store w))) embed_row (fetched w) = (Inr (), w4)"
      and Y: "trace w' = trace w4 @ Y"
      "fst ` set Y \<subseteq> {Print (check_mark @ '' Embeddings synced''), CursorClose, ConnectionClose}"
    from embed_loop_extends [OF l] embed_loop_frame [OF l] Y 2 [OF Y(2)] show ?thesis by auto
  qed
qed


lemma ensure_index_shape:
  assumes "ensure_index w = (r, w1)"
  shows "\<exists>X. trace w1 = trace w @ X \<and>
           create_index_calls X =
             (if (ListIndexes, None) \<in> set X \<and> index_name \<notin> set (indexes w)
              then [(''career-mirror'', 1536)] else []) \<and>
           (r = Inr () \<longrightarrow> (ListIndexes, None) \<in> set X)"
  using assms
  by (auto simp: ensure_index_def [THEN fun_cong] lib_defs index_name_def
           split: option.splits if_splits)

text \<open>
  C7.  A run of the script calls create-index not at all when the index name is in the
  vector store's list, and, when the list was obtained and the name is not in it,
  exactly once, for \<open>career-mirror\<close> with dimension 1536.
\<close>

theorem index_created_once:
  assumes "load_embeddings w = (r, w')"
  shows "(index_name \<in> set (indexes w) \<longrightarrow> create_index_calls (issued w w') = []) \<and>
         (index_name \<notin> set (indexes w) \<and> (ListIndexes, None) \<in> set (issued w w') \<longrightarrow>
            create_index_calls (issued w w') = [(''career-mirror'', 1536)])"
proof -
  obtain r1 w1 where e: "ensure_index w = (r1, w1)" by (cases "ensure_index w")
  from ensure_index_shape [OF e] obtain X where
    X: "trace w1 = trace w @ X"
    and c: "create_index_calls X =
             (if (ListIndexes, None) \<in> set X \<and> index_name \<notin> set (indexes w)
              then [(''career-mirror'', 1536)] else [])"
    and l: "r1 = Inr () \<longrightarrow> (ListIndexes, None) \<in> set X"
    by blast
  show ?thesis
  proof (cases r1)
    case (Inl e1)
    with assms e have "w' = w1" by (simp add: load_embeddings_def seq_apply)
    with X c show ?thesis by simp
  next
    case (Inr u)
    with assms e have s: "seed_embeddings w1 = (r, w')" by (simp add: load_embeddings_def seq_apply)
    from seed_embeddings_no_create [OF s] obtain Y where
      Y: "trace w' = trace w1 @ Y" "create_index_calls Y = []" by blast
    with X have "issued w w' = X @ Y" by simp
    with c Y(2) l Inr show ?thesis by simp
  qed
qed


text \<open>
  Three profiles, the second embedding call raises: the run ends with that error after
  one upsert, keyed \<open>1\<close>, and two embedding calls.
\<close>

theorem sync_aborts_at_failed_embedding_witness:
  "fst (seed_embeddings second_embedding_fails) = Inl OpenAIError \<and>
   embedding_calls (issued second_embedding_fails (snd (seed_embeddings second_embedding_fails))) = [''bread'', ''sky''] \<and>
   upsert_keys (issued second_embedding_fails (snd (seed_embeddings second_embedding_fails))) = [''1''] \<and>
   store (snd (seed_embeddings second_embedding_fails)) = store second_embedding_fails"
proof -
  let ?w = "second_embedding_fails"
  have run: "seed_embeddings ?w = (fst (seed_embeddings ?w), snd (seed_embeddings ?w))" by simp
  have t: "issued ?w (snd (seed_embeddings ?w)) =
     [(Connect, None), (Cursor, None), (Execute SelectProfiles, None), (Fetchall, None),
      (EmbeddingCreate ''bread'' ''text-embedding-ada-002'', None), (Upsert [(str 1, [5])], None),
      (EmbeddingCreate ''sky'' ''text-embedding-ada-002'', Some OpenAIError)]"
    by (simp add: second_embedding_fails_def three_profiles_def world_defs
          seed_embeddings_def [THEN fun_cong] lib_defs issued_def)
  then have "(EmbeddingCreate ''sky'' ''text-embedding-ada-002'', Some OpenAIError)
      \<in> set (issued ?w (snd (seed_embeddings ?w)))" by simp
  moreover have "user_profiles (store ?w) =
       [\<lparr>p_id = 1, p_user_id = 4, p_headline = ''Baker'', p_profile_text = ''bread''\<rparr>,
        \<lparr>p_id = 2, p_user_id = 5, p_headline = ''Pilot'', p_profile_text = ''sky''\<rparr>,
        \<lparr>p_id = 3, p_user_id = 6, p_headline = ''Nurse'', p_profile_text = ''care''\<rparr>]"
    by (simp add: second_embedding_fails_def three_profiles_def world_defs)
  ultimately show ?thesis
    using sync_aborts_at_failed_embedding [OF run, of "''sky''" "''text-embedding-ada-002''" OpenAIError]
    by (simp add: t Let_def str_1)
qed

text \<open>
  The quiet world has no profiles.
\<close>

theorem sync_empty_table_witness:
  "fst (seed_embeddings quiet_world) = Inr () \<and>
   embedding_calls (issued quiet_world (snd (seed_embeddings quiet_world))) = [] \<and>
   upsert_calls (issued quiet_world (snd (seed_embeddings quiet_world))) = [] \<and>
   issued quiet_world (snd (seed_embeddings quiet_world)) =
     [(Connect, None), (Cursor, None), (Execute SelectProfiles, None), (Fetchall, None),
      (Print (check_mark @ '' Embeddings synced''), None), (CursorClose, None), (ConnectionClose, None)]"
proof -
  let ?w = "quiet_world"
  have e: "user_profiles (store ?w) = []" by (simp add: world_defs)
  have run: "seed_embeddings ?w = (fst (seed_embeddings ?w), snd (seed_embeddings ?w))" by simp
  have "failed_calls (issued ?w (snd (seed_embeddings ?w))) = []"
    by (simp add: world_defs seed_embeddings_def [THEN fun_cong] lib_defs issued_def)
  with sync_empty_table [OF e run] show ?thesis by simp
qed

text \<open>
  The quiet world has no index; \<open>index_exists\<close> has it.
\<close>

theorem index_created_once_witness:
  "create_index_calls (issued quiet_world (snd (load_embeddings quiet_world))) = [(''career-mirror'', 1536)] \<and>
   create_index_calls (issued index_exists (snd (load_embeddings index_exists))) = []"
proof -
  have r1: "load_embeddings quiet_world = (fst (load_embeddings quiet_world), snd (load_embeddings quiet_world))"
    by simp
  have r2: "load_embeddings index_exists = (fst (load_embeddings index_exists), snd (load_embeddings index_exists))"
    by simp
  have a: "index_name \<notin> set (indexes quiet_world)" by (simp add: world_defs index_name_def)
  have b: "(ListIndexes, None) \<in> set (issued quiet_world (snd (load_embeddings quiet_world)))"
    by (simp add: world_defs load_embeddings_def [THEN fun_cong] ensure_index_def [THEN fun_cong]
          seed_embeddings_def [THEN fun_cong] lib_defs issued_def index_name_def)
  have c: "index_name \<in> set (indexes index_exists)"
    by (simp add: index_exists_def world_defs index_name_def)
  from index_created_once [OF r1] index_created_once [OF r2] a b c show ?thesis by simp
qed

text \<open>
  C1.  The select reads the column \<open>id\<close> of \<open>user_profiles\<close>, not \<open>user_id\<close>, so the key
  of an upsert is the profile row's own identifier.  In \<open>shifted_ids\<close> the only profile
  belongs to user 2 and is upserted under the key \<open>1\<close>.
\<close>

theorem sync_keys_are_profile_ids:
  "fst (seed_embeddings shifted_ids) = Inr () \<and>
   upsert_keys (issued shifted_ids (snd (seed_embeddings shifted_ids))) = [''1''] \<and>
   map (str \<circ> p_user_id) (user_profiles (store shifted_ids)) = [''2'']"
  by (simp add: shifted_ids_def world_defs seed_embeddings_def [THEN fun_cong] lib_defs issued_def
        str_1 str_2)

section \<open>The seeders\<close>

lemma seeders_are_batches:
  "seed_achievements = batch (for_each achievements_list insert_achievement) (check_mark @ '' Achievements seeded'')"
  "seed_careers = batch (for_each careers_list insert_career) (check_mark @ '' Careers seeded'')"
  "seed_users = batch (for_each [0..<20] insert_user_and_profile) (check_mark @ '' Users seeded'')"
  by (simp_all add: seed_achievements_def seed_careers_def seed_users_def)

lemma batch_shape:
  assumes "batch loop msg w = (r, w')"
  shows "(store w' = store w \<and> r \<noteq> Inr () \<and>
          (\<exists>X. trace w' = trace w @ X \<and> fst ` set X \<subseteq> {Connect, Cursor})) \<or>
         (\<exists>e. r = Inl e \<and> loop (connected w) = (Inl e, w')) \<or>
         (\<exists>w4 e. loop (connected w) = (Inr (), w4) \<and> r = Inl e \<and>
            trace w' = trace w4 @ [(Commit, Some e)] \<and> store w' = store w4) \<or>
         (\<exists>w4 Y. loop (connected w) = (Inr (), w4) \<and>
            trace w' = trace w4 @ (Commit, None) # Y \<and> store w' = pending w4 \<and>
            fst ` set Y \<subseteq> {CursorClose, ConnectionClose, Print msg} \<and>
            (r = Inr () \<longrightarrow> Y = [(CursorClose, None), (ConnectionClose, None), (Print msg, None)]))"
  using assms
  by (auto simp: lib_defs split: option.splits sum.splits prod.splits)


lemma uncommitted_loop:
  assumes run: "for_each xs body (u :: 'v world) = (r, u')"
    and step: "\<And>x u r u'. body x u = (r, u') \<Longrightarrow> uncommitted u r u'"
  shows "uncommitted u r u'"
proof (rule for_each_rule [OF run, where G = uncommitted])
  show "uncommitted a (Inr ()) a" for a :: "'v world"
    by (simp add: uncommitted_def)
next
  fix a b c :: "'v world" and r :: "error + unit"
  assume "uncommitted a (Inr ()) b" "uncommitted b r c"
  then obtain X Y where
    X: "trace b = trace a @ X" "commit_calls X = []" "\<forall>ev e. (ev, Some e) \<notin> set X"
    and Y: "trace c = trace b @ Y" "commit_calls Y = []"
      "\<forall>ev e. (ev, Some e) \<in> set Y \<longrightarrow> r = Inl e \<and> last Y = (ev, Some e)"
    and s: "store c = store a"
    by (auto simp: uncommitted_def)
  have "trace c = trace a @ (X @ Y)" using X Y by simp
  moreover have "commit_calls (X @ Y) = []" using X Y by simp
  moreover have "\<forall>ev e. (ev, Some e) \<in> set (X @ Y) \<longrightarrow> r = Inl e \<and> last (X @ Y) = (ev, Some e)"
    using X(3) Y(3) by (auto simp: last_append)
  ultimately show "uncommitted a r c" using s unfolding uncommitted_def by blast
qed (use step in blast)

lemma insert_achievement_uncommitted:
  "insert_achievement x u = (r, u') \<Longrightarrow> uncommitted u r u'"
  by (cases x) (auto simp: lib_defs uncommitted_def split: option.splits)

lemma insert_career_uncommitted:
  "insert_career x u = (r, u') \<Longrightarrow> uncommitted u r u'"
  by (auto simp: lib_defs uncommitted_def split: option.splits)

lemma insert_user_and_profile_uncommitted:
  "insert_user_and_profile x u = (r, u') \<Longrightarrow> uncommitted u r u'"
  by (auto simp: lib_defs uncommitted_def Let_def split: option.splits list.splits result_row.splits)


lemma committed_other: "a \<noteq> Commit \<Longrightarrow> committed (a, b) = []"
  by (cases a) auto

lemma executed_other: "\<forall>s. a \<noteq> Execute s \<Longrightarrow> executed (a, b) = []"
  by (cases a) auto

lemma no_commit_among:
  "fst ` set X \<subseteq> S \<Longrightarrow> Commit \<notin> S \<Longrightarrow> commit_calls X = []"
  by (induction X) (auto intro: committed_other)

lemma no_statement_among:
  "fst ` set X \<subseteq> S \<Longrightarrow> \<forall>s. Execute s \<notin> S \<Longrightarrow> statements X = []"
  by (induction X) (auto intro!: executed_other)

lemma commit_calls_Nil: "commit_calls X = [] \<Longrightarrow> (Commit, c) \<notin> set X"
  by (induction X) auto

lemma batch_cases:
  assumes "batch loop msg w = (r, w')"
  obtains
    (before) X where "store w' = store w" "r \<noteq> Inr ()" "trace w' = trace w @ X"
      "fst ` set X \<subseteq> {Connect, Cursor}"
  | (looping) e where "r = Inl e" "loop (connected w) = (Inl e, w')"
  | (commit_failed) w4 e where "loop (connected w) = (Inr (), w4)" "r = Inl e"
      "trace w' = trace w4 @ [(Commit, Some e)]" "store w' = store w4"
  | (committed) w4 Y where "loop (connected w) = (Inr (), w4)"
      "trace w' = trace w4 @ (Commit, None) # Y" "store w' = pending w4"
      "fst ` set Y \<subseteq> {CursorClose, ConnectionClose, Print msg}"
      "r = Inr () \<longrightarrow> Y = [(CursorClose, None), (ConnectionClose, None), (Print msg, None)]"
  using batch_shape [OF assms]
  apply (elim disjE exE conjE)
     apply (rule that(1); assumption)
    apply (rule that(2); assumption)
   apply (rule that(3); assumption)
  apply (rule that(4); assumption)
  done


lemma batch_commits_once:
  assumes loop: "\<And>u r u'. loop (u :: 'v world) = (r, u') \<Longrightarrow> uncommitted u r u'"
  shows "commits_once_at_end (batch loop msg) msg"
  unfolding commits_once_at_end_def
proof (intro allI impI)
  fix w w' :: "'v world" and r
  assume run: "batch loop msg w = (r, w')"
  let ?pre = "[(Connect, None), (Cursor, None)] :: ('v event \<times> error option) list"
  let ?goal = "length (commit_calls (issued w w')) \<le> 1 \<and>
        ((Commit, None) \<notin> set (issued w w') \<longrightarrow> store w' = store w) \<and>
        (r = Inr () \<longrightarrow>
           (\<exists>A. issued w w' =
                  A @ [(Commit, None), (CursorClose, None), (ConnectionClose, None), (Print msg, None)] \<and>
                commit_calls A = [] \<and> statements A = statements (issued w w'))) \<and>
        (\<forall>s e. (Execute s, Some e) \<in> set (issued w w') \<longrightarrow>
           r = Inl e \<and> last (issued w w') = (Execute s, Some e) \<and>
           commit_calls (issued w w') = [] \<and> store w' = store w)"
  from run show ?goal
  proof (cases rule: batch_cases)
    case (before X)
    have "commit_calls X = []" using before(4) by (rule no_commit_among) simp
    moreover have "(Execute s, Some e) \<notin> set X" for s e
      using before(4) by (auto simp: image_subset_iff)
    moreover have "issued w w' = X" using before(3) by simp
    ultimately show ?thesis using before(1,2) by simp
  next
    case (looping e)
    from loop [OF looping(2)] obtain X where
      X: "trace w' = trace (connected w) @ X" "commit_calls X = []"
         "\<forall>ev e'. (ev, Some e') \<in> set X \<longrightarrow> e = e' \<and> last X = (ev, Some e')"
      and s: "store w' = store w"
      by (auto simp: uncommitted_def)
    from X(1) have iss: "issued w w' = ?pre @ X" by simp
    have m: "r = Inl e' \<and> last (?pre @ X) = (Execute s, Some e')"
      if "(Execute s, Some e') \<in> set X" for s e'
    proof -
      from that X(3) have "e = e'" "last X = (Execute s, Some e')" by blast+
      moreover from that have "X \<noteq> []" by auto
      ultimately show ?thesis using looping(1) by (simp add: last_append)
    qed
    show ?thesis unfolding iss using X(2) s looping(1) m by auto
  next
    case (commit_failed w4 e)
    from loop [OF commit_failed(1)] obtain X where
      X: "trace w4 = trace (connected w) @ X" "commit_calls X = []"
         "\<forall>ev e'. (ev, Some e') \<notin> set X"
      and s: "store w4 = store w"
      by (auto simp: uncommitted_def)
    from X(1) commit_failed(3) have iss: "issued w w' = ?pre @ X @ [(Commit, Some e)]" by simp
    show ?thesis unfolding iss using X(2,3) s commit_failed(2,4) by auto
  next
    case (committed w4 Y)
    from loop [OF committed(1)] obtain X where
      X: "trace w4 = trace (connected w) @ X" "commit_calls X = []"
         "\<forall>ev e'. (ev, Some e') \<notin> set X"
      by (auto simp: uncommitted_def)
    from X(1) committed(2) have iss: "issued w w' = ?pre @ X @ (Commit, None) # Y" by simp
    have cY: "commit_calls Y = []" using committed(4) by (rule no_commit_among) simp
    have nY: "(Execute s, Some e) \<notin> set Y" for s e using committed(4) by (auto simp: image_subset_iff)
    have "\<exists>A. issued w w' =
                  A @ [(Commit, None), (CursorClose, None), (ConnectionClose, None), (Print msg, None)] \<and>
                commit_calls A = [] \<and> statements A = statements (issued w w')"
      if "r = Inr ()"
    proof -
      from that committed(5) have Y: "Y = [(CursorClose, None), (ConnectionClose, None), (Print msg, None)]"
        by simp
      show ?thesis
        by (rule exI [of _ "?pre @ X"]) (simp add: iss Y X(2))
    qed
    moreover have "length (commit_calls (issued w w')) \<le> 1" by (simp add: iss X(2) cY)
    moreover have "(Commit, None) \<in> set (issued w w')" by (simp add: iss)
    moreover have "(Execute s, Some e) \<notin> set (issued w w')" for s e
      using X(3) nY by (simp add: iss)
    ultimately show ?thesis by blast
  qed
qed

text \<open>
  C6.  The profile seeder and both reference-data seeders call commit at most once, after
  the whole batch of inserts: a run that returns ends with commit, the two closes and
  the message, and all its statements come before the commit.  If an insert raises, the
  run ends with that error, it has called no commit, and the committed tables are what
  they were before the run.
\<close>

theorem seeders_commit_once_at_end:
  "commits_once_at_end seed_users (check_mark @ '' Users seeded'') \<and>
   commits_once_at_end seed_achievements (check_mark @ '' Achievements seeded'') \<and>
   commits_once_at_end seed_careers (check_mark @ '' Careers seeded'')"
proof (intro conjI)
  show "commits_once_at_end seed_users (check_mark @ '' Users seeded'')"
    unfolding seeders_are_batches
    by (rule batch_commits_once, rule uncommitted_loop, assumption,
        rule insert_user_and_profile_uncommitted)
  show "commits_once_at_end seed_achievements (check_mark @ '' Achievements seeded'')"
    unfolding seeders_are_batches
    by (rule batch_commits_once, rule uncommitted_loop, assumption,
        rule insert_achievement_uncommitted)
  show "commits_once_at_end seed_careers (check_mark @ '' Careers seeded'')"
    unfolding seeders_are_batches
    by (rule batch_commits_once, rule uncommitted_loop, assumption,
        rule insert_career_uncommitted)
qed


text \<open>
  Seeding achievements where the second insert raises commits nothing; in the quiet
  world the commit is called once and returns.
\<close>

theorem seeders_commit_once_at_end_witness:
  "fst (seed_achievements second_insert_fails) = Inl DatabaseError \<and>
   commit_calls (issued second_insert_fails (snd (seed_achievements second_insert_fails))) = [] \<and>
   store (snd (seed_achievements second_insert_fails)) = store second_insert_fails \<and>
   commit_calls (issued quiet_world (snd (seed_achievements quiet_world))) = [None]"
proof -
  let ?w = "second_insert_fails" and ?q = "quiet_world :: nat list world"
  have c: "commits_once_at_end (seed_achievements :: (unit, nat list) prog)
             (check_mark @ '' Achievements seeded'')"
    using seeders_commit_once_at_end by blast
  have run: "seed_achievements ?w = (fst (seed_achievements ?w), snd (seed_achievements ?w))"
    and runq: "seed_achievements ?q = (fst (seed_achievements ?q), snd (seed_achievements ?q))"
    by simp_all
  have t: "issued ?w (snd (seed_achievements ?w)) =
     [(Connect, None), (Cursor, None),
      (Execute (InsertAchievement ''First Steps'' ''Completed first analysis'' 50), None),
      (Execute (InsertAchievement ''Learner'' ''Took a course'' 100), Some DatabaseError)]"
    by (simp add: second_insert_fails_def world_defs seed_achievements_def [THEN fun_cong]
          achievements_list_def lib_defs issued_def)
  have q: "fst (seed_achievements ?q) = Inr ()"
    by (simp add: world_defs seed_achievements_def [THEN fun_cong]
          achievements_list_def lib_defs)
  note k = c [unfolded commits_once_at_end_def, rule_format, OF run]
  have "(Execute (InsertAchievement ''Learner'' ''Took a course'' 100), Some DatabaseError)
          \<in> set (issued ?w (snd (seed_achievements ?w)))"
    by (simp add: t)
  from k [THEN conjunct2, THEN conjunct2, THEN conjunct2, rule_format, OF this]
  have "fst (seed_achievements ?w) = Inl DatabaseError \<and>
     commit_calls (issued ?w (snd (seed_achievements ?w))) = [] \<and>
     store (snd (seed_achievements ?w)) = store ?w"
    by simp
  moreover have "commit_calls (issued ?q (snd (seed_achievements ?q))) = [None]"
  proof -
    note kq = c [unfolded commits_once_at_end_def, rule_format, OF runq]
    from kq [THEN conjunct2, THEN conjunct2, THEN conjunct1, rule_format, OF q]
    obtain A where "issued ?q (snd (seed_achievements ?q)) =
        A @ [(Commit, None), (CursorClose, None), (ConnectionClose, None),
             (Print (check_mark @ '' Achievements seeded''), None)]"
      and "commit_calls A = []"
      by blast
    then show ?thesis by simp
  qed
  ultimately show ?thesis by simp
qed

lemma achievements_loop_adds:
  "for_each xs insert_achievement u = (Inr (), u') \<Longrightarrow>
     set (map a_title (achievements (pending u'))) =
       set (map a_title (achievements (pending u))) \<union> set (map fst xs) \<and>
     (distinct (map a_title (achievements (pending u))) \<longrightarrow>
        distinct (map a_title (achievements (pending u'))))"
proof (induction xs arbitrary: u)
  case Nil
  then show ?case by simp
next
  case (Cons x xs)
  obtain t d p where x: "x = (t, d, p)" by (cases x)
  from Cons.prems obtain u1 where
    1: "insert_achievement x u = (Inr (), u1)" and 2: "for_each xs insert_achievement u1 = (Inr (), u')"
    by (auto split: prod.splits sum.splits)
  from 1 have
    "set (map a_title (achievements (pending u1))) = insert t (set (map a_title (achievements (pending u))))"
    "distinct (map a_title (achievements (pending u))) \<longrightarrow> distinct (map a_title (achievements (pending u1)))"
    by (auto simp: x lib_defs split: option.splits if_splits)
  with Cons.IH [OF 2] show ?case by (auto simp: x)
qed

lemma achievements_loop_skips:
  "set (map fst xs) \<subseteq> set (map a_title (achievements (pending u))) \<Longrightarrow>
   for_each xs insert_achievement u = (r, u') \<Longrightarrow>
     achievements (pending u') = achievements (pending u)"
proof (induction xs arbitrary: u)
  case Nil
  then show ?case by simp
next
  case (Cons x xs)
  obtain t d p where x: "x = (t, d, p)" by (cases x)
  obtain r1 u1 where 1: "insert_achievement x u = (r1, u1)" by (cases "insert_achievement x u")
  with Cons.prems(1) have same: "achievements (pending u1) = achievements (pending u)"
    by (auto simp: x lib_defs split: option.splits if_splits)
  show ?case
  proof (cases r1)
    case (Inl e)
    with Cons.prems(2) 1 have "u' = u1" by simp
    with same show ?thesis by simp
  next
    case (Inr y)
    with Cons.prems(2) 1 have "for_each xs insert_achievement u1 = (r, u')" by simp
    from Cons.IH [OF _ this] Cons.prems(1) same show ?thesis by simp
  qed
qed

lemma careers_loop_adds:
  "for_each xs insert_career u = (Inr (), u') \<Longrightarrow>
     set (map c_title (career_paths (pending u'))) =
       set (map c_title (career_paths (pending u))) \<union> set xs \<and>
     (distinct (map c_title (career_paths (pending u))) \<longrightarrow>
        distinct (map c_title (career_paths (pending u'))))"
proof (induction xs arbitrary: u)
  case Nil
  then show ?case by simp
next
  case (Cons x xs)
  from Cons.prems obtain u1 where
    1: "insert_career x u = (Inr (), u1)" and 2: "for_each xs insert_career u1 = (Inr (), u')"
    by (auto split: prod.splits sum.splits)
  from 1 have
    "set (map c_title (career_paths (pending u1))) = insert x (set (map c_title (career_paths (pending u))))"
    "distinct (map c_title (career_paths (pending u))) \<longrightarrow> distinct (map c_title (career_paths (pending u1)))"
    by (auto simp: lib_defs split: option.splits if_splits)
  with Cons.IH [OF 2] show ?case by auto
qed

lemma careers_loop_skips:
  "set xs \<subseteq> set (map c_title (career_paths (pending u))) \<Longrightarrow>
   for_each xs insert_career u = (r, u') \<Longrightarrow>
     career_paths (pending u') = career_paths (pending u)"
proof (induction xs arbitrary: u)
  case Nil
  then show ?case by simp
next
  case (Cons x xs)
  obtain r1 u1 where 1: "insert_career x u = (r1, u1)" by (cases "insert_career x u")
  with Cons.prems(1) have same: "career_paths (pending u1) = career_paths (pending u)"
    by (auto simp: lib_defs split: option.splits if_splits)
  show ?case
  proof (cases r1)
    case (Inl e)
    with Cons.prems(2) 1 have "u' = u1" by simp
    with same show ?thesis by simp
  next
    case (Inr y)
    with Cons.prems(2) 1 have "for_each xs insert_career u1 = (r, u')" by simp
    from Cons.IH [OF _ this] Cons.prems(1) same show ?thesis by simp
  qed
qed


lemma batch_store:
  assumes loop: "\<And>u r u'. loop (u :: 'v world) = (r, u') \<Longrightarrow> uncommitted u r u'"
    and run: "batch loop msg w = (r, w')"
  shows "(r \<noteq> Inr () \<and> store w' = store w) \<or>
         (\<exists>w4. loop (connected w) = (Inr (), w4) \<and> store w' = pending w4)"
  using run
proof (cases rule: batch_cases)
  case (before X)
  then show ?thesis by simp
next
  case (looping e)
  with loop [OF looping(2)] show ?thesis by (simp add: uncommitted_def)
next
  case (commit_failed w4 e)
  with loop [OF commit_failed(1)] show ?thesis by (simp add: uncommitted_def)
next
  case (committed w4 Y)
  then show ?thesis by blast
qed

lemma reseed_achievements:
  assumes 1: "seed_achievements w = (Inr (), w1)" and 2: "seed_achievements w1 = (r, w2)"
  shows "achievements (store w2) = achievements (store w1) \<and>
      (distinct (map a_title (achievements (store w))) \<longrightarrow>
         length (achievements (store w2)) =
           card (set (map a_title (achievements (store w))) \<union> set (map fst achievements_list)))"
proof -
  have unc: "uncommitted u r u'"
    if "for_each achievements_list insert_achievement u = (r, u')" for u u' :: "'a world" and r
    using that by (rule uncommitted_loop) (rule insert_achievement_uncommitted)
  have "(Inr () \<noteq> (Inr () :: error + unit) \<and> store w1 = store w) \<or>
        (\<exists>w4. for_each achievements_list insert_achievement (connected w) = (Inr (), w4) \<and> store w1 = pending w4)"
    by (rule batch_store [OF unc 1 [unfolded seeders_are_batches]]) assumption
  then obtain w4 where
    l1: "for_each achievements_list insert_achievement (connected w) = (Inr (), w4)"
    and s1: "store w1 = pending w4"
    by auto
  from achievements_loop_adds [OF l1] s1 have
    titles: "set (map a_title (achievements (store w1))) =
       set (map a_title (achievements (store w))) \<union> set (map fst achievements_list)"
    and dist: "distinct (map a_title (achievements (store w))) \<longrightarrow>
       distinct (map a_title (achievements (store w1)))"
    by simp_all
  have "(r \<noteq> Inr () \<and> store w2 = store w1) \<or>
        (\<exists>w5. for_each achievements_list insert_achievement (connected w1) = (Inr (), w5) \<and>
           store w2 = pending w5)"
    by (rule batch_store [OF unc 2 [unfolded seeders_are_batches]]) assumption
  then have same: "achievements (store w2) = achievements (store w1)"
  proof (elim disjE exE conjE)
    assume "store w2 = store w1"
    then show ?thesis by simp
  next
    fix w5 assume l2: "for_each achievements_list insert_achievement (connected w1) = (Inr (), w5)"
      and s2: "store w2 = pending w5"
    have "set (map fst achievements_list) \<subseteq> set (map a_title (achievements (pending (connected w1))))"
      using titles by simp
    from achievements_loop_skips [OF this l2] s2 show ?thesis by simp
  qed
  have "length (achievements (store w1)) =
          card (set (map a_title (achievements (store w))) \<union> set (map fst achievements_list))"
    if "distinct (map a_title (achievements (store w)))"
  proof -
    from that dist have "distinct (map a_title (achievements (store w1)))" by simp
    from distinct_card [OF this] titles show ?thesis by simp
  qed
  with same show ?thesis by simp
qed

lemma reseed_careers:
  assumes 1: "seed_careers w = (Inr (), w1)" and 2: "seed_careers w1 = (r, w2)"
  shows "career_paths (store w2) = career_paths (store w1) \<and>
      (distinct (map c_title (career_paths (store w))) \<longrightarrow>
         length (career_paths (store w2)) =
           card (set (map c_title (career_paths (store w))) \<union> set careers_list))"
proof -
  have unc: "uncommitted u r u'"
    if "for_each careers_list insert_career u = (r, u')" for u u' :: "'a world" and r
    using that by (rule uncommitted_loop) (rule insert_career_uncommitted)
  have "(Inr () \<noteq> (Inr () :: error + unit) \<and> store w1 = store w) \<or>
        (\<exists>w4. for_each careers_list insert_career (connected w) = (Inr (), w4) \<and> store w1 = pending w4)"
    by (rule batch_store [OF unc 1 [unfolded seeders_are_batches]]) assumption
  then obtain w4 where
    l1: "for_each careers_list insert_career (connected w) = (Inr (), w4)"
    and s1: "store w1 = pending w4"
    by auto
  from careers_loop_adds [OF l1] s1 have
    titles: "set (map c_title (career_paths (store w1))) =
       set (map c_title (career_paths (store w))) \<union> set careers_list"
    and dist: "distinct (map c_title (career_paths (store w))) \<longrightarrow>
       distinct (map c_title (career_paths (store w1)))"
    by simp_all
  have "(r \<noteq> Inr () \<and> store w2 = store w1) \<or>
        (\<exists>w5. for_each careers_list insert_career (connected w1) = (Inr (), w5) \<and>
           store w2 = pending w5)"
    by (rule batch_store [OF unc 2 [unfolded seeders_are_batches]]) assumption
  then have same: "career_paths (store w2) = career_paths (store w1)"
  proof (elim disjE exE conjE)
    assume "store w2 = store w1"
    then show ?thesis by simp
  next
    fix w5 assume l2: "for_each careers_list insert_career (connected w1) = (Inr (), w5)"
      and s2: "store w2 = pending w5"
    have "set careers_list \<subseteq> set (map c_title (career_paths (pending (connected w1))))"
      using titles by simp
    from careers_loop_skips [OF this l2] s2 show ?thesis by simp
  qed
  have "length (career_paths (store w1)) =
          card (set (map c_title (career_paths (store w))) \<union> set careers_list)"
    if "distinct (map c_title (career_paths (store w)))"
  proof -
    from that dist have "distinct (map c_title (career_paths (store w1)))" by simp
    from distinct_card [OF this] titles show ?thesis by simp
  qed
  with same show ?thesis by simp
qed

text \<open>
  C3.  After a run of a reference-data seeder that returned, a second run of the same
  seeder leaves its table as it is, whatever the second run's outcome: every title of
  the fixed list is already there and its insert is skipped.  When the titles in the
  table were distinct before the first run, the number of rows is the size of the union
  of the titles that were there and the titles of the list.
\<close>

theorem reseeding_adds_no_rows:
  "(seed_achievements w = (Inr (), w1) \<and> seed_achievements w1 = (r, w2) \<longrightarrow>
      achievements (store w2) = achievements (store w1) \<and>
      (distinct (map a_title (achievements (store w))) \<longrightarrow>
         length (achievements (store w2)) =
           card (set (map a_title (achievements (store w))) \<union> set (map fst achievements_list)))) \<and>
   (seed_careers w = (Inr (), w1) \<and> seed_careers w1 = (r, w2) \<longrightarrow>
      career_paths (store w2) = career_paths (store w1) \<and>
      (distinct (map c_title (career_paths (store w))) \<longrightarrow>
         length (career_paths (store w2)) =
           card (set (map c_title (career_paths (store w))) \<union> set careers_list)))"
  using reseed_achievements [of w w1 r w2] reseed_careers [of w w1 r w2] by blast

text \<open>
  From empty tables, seeding twice gives 2 achievements and 5 career paths.
\<close>

theorem reseeding_adds_no_rows_witness:
  "length (achievements (store (snd (seed_achievements (snd (seed_achievements quiet_world)))))) = 2 \<and>
   length (career_paths (store (snd (seed_careers (snd (seed_careers quiet_world)))))) = 5"
proof -
  let ?q = "quiet_world :: nat list world"
  let ?a1 = "snd (seed_achievements ?q)" and ?c1 = "snd (seed_careers ?q)"
  have a1: "seed_achievements ?q = (Inr (), ?a1)"
    by (simp add: prod_eq_iff world_defs seed_achievements_def [THEN fun_cong]
          achievements_list_def lib_defs)
  have c1: "seed_careers ?q = (Inr (), ?c1)"
    by (simp add: prod_eq_iff world_defs seed_careers_def [THEN fun_cong]
          careers_list_def lib_defs)
  have a2: "seed_achievements ?a1 = (fst (seed_achievements ?a1), snd (seed_achievements ?a1))"
    and c2: "seed_careers ?c1 = (fst (seed_careers ?c1), snd (seed_careers ?c1))"
    by simp_all
  have e: "achievements (store ?q) = []" "career_paths (store ?q) = []"
    by (simp_all add: world_defs)
  note ra = reseeding_adds_no_rows
    [of ?q ?a1 "fst (seed_achievements ?a1)" "snd (seed_achievements ?a1)",
     THEN conjunct1, rule_format, OF conjI [OF a1 a2], THEN conjunct2, rule_format]
  note rc = reseeding_adds_no_rows
    [of ?q ?c1 "fst (seed_careers ?c1)" "snd (seed_careers ?c1)",
     THEN conjunct2, rule_format, OF conjI [OF c1 c2], THEN conjunct2, rule_format]
  have "length (achievements (store (snd (seed_achievements ?a1)))) = 2"
    using ra by (simp add: e achievements_list_def)
  moreover have "length (career_paths (store (snd (seed_careers ?c1)))) = 5"
    using rc by (simp add: e careers_list_def)
  ultimately show ?thesis by simp
qed

lemma uncommitted_extends: "uncommitted u r u' \<Longrightarrow> \<exists>X. trace u' = trace u @ X"
  by (auto simp: uncommitted_def)

lemma batch_statements:
  assumes loop: "\<And>u r u'. loop (u :: 'v world) = (r, u') \<Longrightarrow> uncommitted u r u'"
    and run: "batch loop msg w = (r, w')"
  shows "(r \<noteq> Inr () \<and> statements (issued w w') = []) \<or>
         (\<exists>r4 w4 X. loop (connected w) = (r4, w4) \<and> trace w4 = trace (connected w) @ X \<and>
            (r = Inr () \<longrightarrow> r4 = Inr ()) \<and> statements (issued w w') = statements X)"
  using run
proof (cases rule: batch_cases)
  case (before X)
  have "statements X = []" using before(4) by (rule no_statement_among) simp
  with before show ?thesis by simp
next
  case (looping e)
  from uncommitted_extends [OF loop [OF looping(2)]] obtain X where
    X: "trace w' = trace (connected w) @ X" by blast
  then have "issued w w' = [(Connect, None), (Cursor, None)] @ X" by simp
  then have "statements (issued w w') = statements X" by simp
  with looping X show ?thesis by blast
next
  case (commit_failed w4 e)
  from uncommitted_extends [OF loop [OF commit_failed(1)]] obtain X where
    X: "trace w4 = trace (connected w) @ X" by blast
  with commit_failed(3)
  have "issued w w' = [(Connect, None), (Cursor, None)] @ X @ [(Commit, Some e)]" by simp
  then have "statements (issued w w') = statements X" by simp
  with commit_failed(1) X show ?thesis by blast
next
  case (committed w4 Y)
  have Y: "statements Y = []" using committed(4) by (rule no_statement_among) simp
  from uncommitted_extends [OF loop [OF committed(1)]] obtain X where
    X: "trace w4 = trace (connected w) @ X" by blast
  with committed(2)
  have "issued w w' = [(Connect, None), (Cursor, None)] @ X @ (Commit, None) # Y" by simp
  then have "statements (issued w w') = statements X" by (simp add: Y)
  with committed(1) X show ?thesis by blast
qed


lemma achievements_loop_statements:
  "for_each xs insert_achievement u = (Inr (), u') \<Longrightarrow>
     statements (trace u') = statements (trace u) @ map (\<lambda>(t, d, p). InsertAchievement t d p) xs"
proof (induction xs arbitrary: u)
  case Nil
  then show ?case by simp
next
  case (Cons x xs)
  obtain t d p where x: "x = (t, d, p)" by (cases x)
  from Cons.prems obtain u1 where
    1: "insert_achievement x u = (Inr (), u1)" and 2: "for_each xs insert_achievement u1 = (Inr (), u')"
    by (auto split: prod.splits sum.splits)
  from 1 have "statements (trace u1) = statements (trace u) @ [InsertAchievement t d p]"
    by (auto simp: x lib_defs split: option.splits)
  with Cons.IH [OF 2] show ?case by (simp add: x)
qed

lemma for_each_among:
  assumes run: "for_each xs body (u :: 'v world) = (r, u')"
    and step: "\<And>x u r u'. x \<in> set xs \<Longrightarrow> body x u = (r, u') \<Longrightarrow>
                 \<exists>X. trace u' = trace u @ X \<and> (\<forall>s \<in> set (statements X). P s)"
  shows "\<exists>X. trace u' = trace u @ X \<and> (\<forall>s \<in> set (statements X). P s)"
proof (rule for_each_rule [OF run, where
         G = "\<lambda>u r u'. \<exists>X. trace u' = trace u @ X \<and> (\<forall>s \<in> set (statements X). P s)"])
  show "\<exists>X. trace a = trace a @ X \<and> (\<forall>s \<in> set (statements X). P s)" for a :: "'v world"
    by (rule exI [of _ "[]"]) simp
next
  fix a b c :: "'v world"
  assume "\<exists>X. trace b = trace a @ X \<and> (\<forall>s \<in> set (statements X). P s)"
    and "\<exists>X. trace c = trace b @ X \<and> (\<forall>s \<in> set (statements X). P s)"
  then obtain X Y where "trace b = trace a @ X" "\<forall>s \<in> set (statements X). P s"
    "trace c = trace b @ Y" "\<forall>s \<in> set (statements Y). P s" by blast
  then show "\<exists>X. trace c = trace a @ X \<and> (\<forall>s \<in> set (statements X). P s)"
    by (intro exI [of _ "X @ Y"]) auto
next
  fix x u r u' assume "x \<in> set xs" "body x (u :: 'v world) = (r, u')"
  then show "\<exists>X. trace u' = trace u @ X \<and> (\<forall>s \<in> set (statements X). P s)"
    by (rule step)
qed


lemma insert_achievement_step:
  assumes "insert_achievement x u = (r, u')"
  obtains t d p outcome where "x = (t, d, p)"
    "trace u' = trace u @ [(Execute (InsertAchievement t d p), outcome)]"
  using assms by (cases x) (auto simp: lib_defs split: option.splits)

lemma achievements_loop_among:
  assumes "for_each xs insert_achievement u = (r, u')"
  shows "\<exists>X. trace u' = trace u @ X \<and>
           (\<forall>s \<in> set (statements X). \<exists>t d p. (t, d, p) \<in> set xs \<and> s = InsertAchievement t d p)"
proof (rule for_each_among [OF assms])
  fix x u r u' assume x: "x \<in> set xs" and b: "insert_achievement x (u :: 'a world) = (r, u')"
  from b obtain t d p outcome where "x = (t, d, p)"
    "trace u' = trace u @ [(Execute (InsertAchievement t d p), outcome)]"
    by (rule insert_achievement_step)
  with x show "\<exists>X. trace u' = trace u @ X \<and>
           (\<forall>s \<in> set (statements X). \<exists>t d p. (t, d, p) \<in> set xs \<and> s = InsertAchievement t d p)"
    by (intro exI [of _ "[(Execute (InsertAchievement t d p), outcome)]"]) auto
qed

lemma insert_career_step:
  assumes "insert_career c u = (r, u')"
  obtains salary outcome where
    "60000 \<le> salary" "salary \<le> 180000"
    "trace u' = trace u @ [(Execute (career_insert c salary), outcome)]"
proof -
  define salary where "salary = 60000 + int (entropy u (drawn u) mod 120001)"
  have "entropy u (drawn u) mod 120001 < 120001" by simp
  then have "60000 \<le> salary" "salary \<le> 180000" unfolding salary_def by linarith+
  moreover from assms have
    "\<exists>outcome. trace u' = trace u @ [(Execute (career_insert c salary), outcome)]"
    unfolding salary_def by (auto simp: lib_defs split: option.splits if_splits)
  ultimately show ?thesis using that by blast
qed

end
